theory Spec2Isabelle
  imports Main "HOL-Library.Sublist" "HOL-Library.AList"
begin

section \<open>Keyword extractor: the aggregation pipeline of \<open>word_extractor.py\<close>\<close>

text \<open>
  The theory embeds class \<open>WordExtractor\<close> and function \<open>main\<close>. A Python \<open>str\<close> is
  modelled by the \<open>string\<close> of its UTF-8 bytes; the only literals the program searches for
  are ASCII, and an ASCII byte never occurs inside a multi-byte UTF-8 sequence, so substring
  search and replacement on the bytes agree with Python's on code points. A Python \<open>dict\<close>
  is an association list in insertion order: \<open>map_of\<close> is \<open>dict.get\<close>, and
  \<open>AList.update\<close> is item assignment (an existing key keeps its position, a new key goes
  to the end). Python's unbounded integers are \<open>int\<close>.

  The library calls are parameters of the model: \<open>lower\<close> stands for \<open>str.lower\<close>,
  \<open>get_sentences\<close> for reading a file and \<open>nltk.sent_tokenize\<close>, \<open>kw_extractor\<close> for
  \<open>yake.KeywordExtractor.extract_keywords\<close>. The last two may raise.
\<close>

subsection \<open>Data\<close>

datatype error = KeyError string | LibraryError string

text \<open>One value of \<open>keyword_list\<close>: \<open>{'count': .., 'source': [..], 'sentence': [..]}\<close>.\<close>

record kw_entry =
  count :: int
  source :: "string list"
  sentence :: "string list"

type_synonym kw_dict = "(string \<times> kw_entry) list"

text \<open>
  The attributes of a \<open>WordExtractor\<close> that the methods below read or write. The YAKE
  extractor object built in \<open>__init__\<close> from \<open>lang\<close>, \<open>max_ngram_size\<close>,
  \<open>deduplication_threshold\<close> and \<open>num_of_keywords\<close> is the parameter \<open>kw_extractor\<close>.
\<close>

record word_extractor =
  keyword_limit_in_result :: int
  keyword_list :: kw_dict
  keyword_list_filtered :: kw_dict
  blacklist :: "string list"

definition WordExtractor_init :: "int \<Rightarrow> word_extractor" where
  "WordExtractor_init keyword_limit_in_final_table =
     \<lparr>keyword_limit_in_result = keyword_limit_in_final_table,
      keyword_list = [],
      keyword_list_filtered = [],
      blacklist = [''year'', ''years'', ''day'', ''time'', ''make'', ''made'', ''easy'', ''hard'',
        ''stop'', ''good'', ''looked'', ''long'', ''making'', ''left'', ''stand'', ''pass'',
        ''true'', ''ago'', ''longer'', ''times'', ''turned'', ''greater'', ''and'', ''thing'',
        ''told'', ''thought'', ''changed'', ''words'', ''fact'']\<rparr>"

subsection \<open>The aggregator\<close>

text \<open>
  \<open>_add_kw_to_dict\<close>. The test \<open>if self.keyword_list.get(word)\<close> is on the truth value
  of the stored entry; every stored entry is a dict of three keys, hence true, so the test
  succeeds exactly when \<open>word\<close> is a key.
\<close>

definition add_kw_to_dict :: "word_extractor \<Rightarrow> string \<Rightarrow> string \<Rightarrow> string \<Rightarrow> word_extractor" where
  "add_kw_to_dict self word src sen =
     (case map_of (keyword_list self) word of
        Some e \<Rightarrow>
          self\<lparr>keyword_list :=
            AList.update word
              (e\<lparr>count := count e + 1,
                 source := (if src \<notin> set (source e) then source e @ [src] else source e),
                 sentence := sentence e @ [sen]\<rparr>)
              (keyword_list self)\<rparr>
      | None \<Rightarrow>
          self\<lparr>keyword_list :=
            AList.update word \<lparr>count = 1, source = [src], sentence = [sen]\<rparr>
              (keyword_list self)\<rparr>)"

text \<open>
  The accumulate step as \<open>process_file_list\<close> performs it:
  \<open>self._add_kw_to_dict(word.lower(), row['source'], row['sentence'])\<close>. The term is
  lowercased by the caller, not inside \<open>_add_kw_to_dict\<close>.
\<close>

definition accumulate ::
  "(string \<Rightarrow> string) \<Rightarrow> word_extractor \<Rightarrow> string \<Rightarrow> string \<Rightarrow> string \<Rightarrow> word_extractor" where
  "accumulate lower self word src sen = add_kw_to_dict self (lower word) src sen"

text \<open>A finite sequence of accumulate calls, each a triple (term, source, sentence).\<close>

fun accumulate_calls ::
  "(string \<Rightarrow> string) \<Rightarrow> word_extractor \<Rightarrow> (string \<times> string \<times> string) list \<Rightarrow> word_extractor" where
  "accumulate_calls lower self [] = self"
| "accumulate_calls lower self ((word, src, sen) # calls) =
     accumulate_calls lower (accumulate lower self word src sen) calls"

text \<open>
  \<open>str.lower\<close> on the texts in which the only characters it changes are the ASCII
  letters \<open>A\<close> to \<open>Z\<close>: every ASCII text, and also a text with the dotless i
  (U+0131, the bytes C4 B1), which is a lowercase letter already. It is the instance of
  \<open>lower\<close> in the examples.
\<close>

definition lower_char :: "char \<Rightarrow> char" where
  "lower_char c =
     (let n = (of_char c :: nat) in if 65 \<le> n \<and> n \<le> 90 then char_of (n + 32) else c)"

definition ascii_lower :: "string \<Rightarrow> string" where
  "ascii_lower s = map lower_char s"



subsection \<open>The filter\<close>

text \<open>
  \<open>_filter_rows\<close>: the loop over \<open>self.keyword_list.items()\<close>, with \<open>continue\<close> for a
  blacklisted key and the assignment \<open>self.keyword_list_filtered[k] = v\<close> otherwise when
  the count reaches the limit.
\<close>

fun filter_loop :: "word_extractor \<Rightarrow> kw_dict \<Rightarrow> word_extractor" where
  "filter_loop self [] = self"
| "filter_loop self ((k, v) # items) =
     (if k \<in> set (blacklist self) then filter_loop self items
      else if count v \<ge> keyword_limit_in_result self then
        filter_loop
          (self\<lparr>keyword_list_filtered := AList.update k v (keyword_list_filtered self)\<rparr>) items
      else filter_loop self items)"

definition filter_rows :: "word_extractor \<Rightarrow> word_extractor" where
  "filter_rows self = filter_loop self (keyword_list self)"

subsection \<open>The text normalizer\<close>

text \<open>Python's \<open>pat in text\<close> on strings: \<open>pat\<close> occurs as a contiguous substring.\<close>

fun str_in :: "string \<Rightarrow> string \<Rightarrow> bool" where
  "str_in pat [] = (pat = [])"
| "str_in pat (c # cs) = (prefix pat (c # cs) \<or> str_in pat cs)"

text \<open>
  Python's \<open>text.replace(old, new)\<close>: the non-overlapping occurrences of \<open>old\<close> are
  replaced, found from left to right; the search resumes after each replaced occurrence.
  For an empty \<open>old\<close>, \<open>new\<close> is put before every character and at the end.
\<close>

function str_replace :: "string \<Rightarrow> string \<Rightarrow> string \<Rightarrow> string" where
  "str_replace old new text =
     (if old = [] then new @ concat (map (\<lambda>c. c # new) text)
      else if text = [] then []
      else if prefix old text then new @ str_replace old new (drop (length old) text)
      else hd text # str_replace old new (tl text))"
  by pat_completeness auto
termination
  by (relation "measure (\<lambda>(old, new, text). length text)") auto

text \<open>\<open>_clean_text\<close>.\<close>

definition clean_text :: "string \<Rightarrow> string" where
  "clean_text text =
     (if str_in ''al Qaeda'' text then str_replace ''al Qaeda'' ''alqaeda'' text else text)"

subsection \<open>Extraction and the pass over the files\<close>

text \<open>
  \<open>_extract_keywords\<close>: the extractor returns (keyword, score) pairs, of which the
  keywords are kept, in order.
\<close>

definition extract_keywords ::
  "(string \<Rightarrow> error + (string \<times> 'score) list) \<Rightarrow> string \<Rightarrow> error + string list" where
  "extract_keywords kw_extractor text =
     (case kw_extractor (clean_text text) of
        Inl e \<Rightarrow> Inl e
      | Inr keywords \<Rightarrow> Inr (map fst keywords))"

text \<open>\<open>_make_sentence_list\<close>: rows \<open>{'sentence': .., 'source': ..}\<close> as pairs.\<close>

fun make_sentence_list ::
  "(string \<Rightarrow> error + string list) \<Rightarrow> string list \<Rightarrow> error + (string \<times> string) list" where
  "make_sentence_list get_sentences [] = Inr []"
| "make_sentence_list get_sentences (file_name # file_list) =
     (case get_sentences file_name of
        Inl e \<Rightarrow> Inl e
      | Inr sentences \<Rightarrow>
          (case make_sentence_list get_sentences file_list of
             Inl e \<Rightarrow> Inl e
           | Inr sentence_list \<Rightarrow> Inr (map (\<lambda>s. (s, file_name)) sentences @ sentence_list)))"

text \<open>The inner loop of \<open>process_file_list\<close>, over the keywords of one row.\<close>

fun add_key_words ::
  "(string \<Rightarrow> string) \<Rightarrow> word_extractor \<Rightarrow> string list \<Rightarrow> string \<Rightarrow> string \<Rightarrow> word_extractor" where
  "add_key_words lower self [] src sen = self"
| "add_key_words lower self (word # key_words) src sen =
     add_key_words lower (accumulate lower self word src sen) key_words src sen"

text \<open>The outer loop of \<open>process_file_list\<close>, over the rows.\<close>

fun process_rows ::
  "(string \<Rightarrow> string) \<Rightarrow> (string \<Rightarrow> error + (string \<times> 'score) list) \<Rightarrow> word_extractor \<Rightarrow>
     (string \<times> string) list \<Rightarrow> error + word_extractor" where
  "process_rows lower kw_extractor self [] = Inr self"
| "process_rows lower kw_extractor self ((sen, src) # sentences) =
     (case extract_keywords kw_extractor sen of
        Inl e \<Rightarrow> Inl e
      | Inr key_words \<Rightarrow>
          process_rows lower kw_extractor (add_key_words lower self key_words src sen) sentences)"

definition process_file_list ::
  "(string \<Rightarrow> string) \<Rightarrow> (string \<Rightarrow> error + string list) \<Rightarrow>
     (string \<Rightarrow> error + (string \<times> 'score) list) \<Rightarrow> word_extractor \<Rightarrow> string list \<Rightarrow>
     error + word_extractor" where
  "process_file_list lower get_sentences kw_extractor self file_list =
     (case make_sentence_list get_sentences file_list of
        Inl e \<Rightarrow> Inl e
      | Inr sentences \<Rightarrow>
          (case process_rows lower kw_extractor self sentences of
             Inl e \<Rightarrow> Inl e
           | Inr self' \<Rightarrow> Inr (filter_rows self')))"

subsection \<open>File discovery and the report\<close>

text \<open>
  \<open>glob.glob(f'{folder}/*txt')\<close> for a \<open>folder\<close> without wildcard characters, given the
  names the directory holds (none when it does not exist). The pattern \<open>*txt\<close> matches
  a name that ends with the three characters \<open>txt\<close>; since the pattern does not begin
  with a dot, glob leaves out the names that do.
\<close>

definition ishidden :: "string \<Rightarrow> bool" where
  "ishidden name = prefix ''.'' name"

definition glob_txt :: "string \<Rightarrow> string list \<Rightarrow> string list" where
  "glob_txt folder names =
     map (\<lambda>name. folder @ ''/'' @ name)
       (filter (\<lambda>name. \<not> ishidden name \<and> suffix ''txt'' name) names)"

text \<open>
  The part of pandas that \<open>main\<close> uses. \<open>pd.DataFrame(d).transpose()\<close> for a dict of
  dicts \<open>d\<close> has one row per key of \<open>d\<close> and one column per inner key; built from the
  empty dict it has no column at all. \<open>sort_values(by=['count'], ascending=False)\<close> raises
  \<open>KeyError\<close> when no column is labelled \<open>count\<close>. The order pandas gives to rows of
  equal count is not modelled: the rows are sorted stably.
\<close>

record data_frame =
  columns :: "string list"
  frame_rows :: "(string \<times> kw_entry) list"

definition DataFrame_transpose :: "kw_dict \<Rightarrow> data_frame" where
  "DataFrame_transpose d =
     \<lparr>columns = (if d = [] then [] else [''count'', ''source'', ''sentence'']),
      frame_rows = d\<rparr>"

definition sort_values_count :: "data_frame \<Rightarrow> error + data_frame" where
  "sort_values_count df =
     (if ''count'' \<in> set (columns df)
      then Inr (df\<lparr>frame_rows := sort_key (\<lambda>r. - count (snd r)) (frame_rows df)\<rparr>)
      else Inl (KeyError ''count''))"

text \<open>
  \<open>reset_index().rename({'index': 'word'}, axis=1)\<close> and \<open>to_csv\<close>: the written table,
  its header with the unnamed row-index column first.
\<close>

record csv_table =
  header :: "string list"
  data_rows :: "(nat \<times> string \<times> kw_entry) list"

definition to_csv :: "data_frame \<Rightarrow> csv_table" where
  "to_csv df =
     \<lparr>header = '''' # ''word'' # columns df,
      data_rows = zip [0 ..< length (frame_rows df)] (frame_rows df)\<rparr>"

text \<open>
  \<open>main\<close>, without \<open>nltk.download\<close> and the final \<open>print\<close>. \<open>names\<close> are the names in
  \<open>folder\<close>.
\<close>

definition main ::
  "(string \<Rightarrow> string) \<Rightarrow> (string \<Rightarrow> error + string list) \<Rightarrow>
     (string \<Rightarrow> error + (string \<times> 'score) list) \<Rightarrow> string list \<Rightarrow> string \<Rightarrow> int \<Rightarrow>
     error + csv_table" where
  "main lower get_sentences kw_extractor names folder keyword_limit_in_final_table =
     (let file_list = glob_txt folder names;
          WE = WordExtractor_init keyword_limit_in_final_table
      in case process_file_list lower get_sentences kw_extractor WE file_list of
           Inl e \<Rightarrow> Inl e
         | Inr WE' \<Rightarrow>
             (case sort_values_count (DataFrame_transpose (keyword_list_filtered WE')) of
                Inl e \<Rightarrow> Inl e
              | Inr df \<Rightarrow> Inr (to_csv df)))"

section \<open>Properties of the aggregator\<close>

lemma map_of_add_kw_to_dict:
  "map_of (keyword_list (add_kw_to_dict self word src sen)) =
     (map_of (keyword_list self))(word \<mapsto>
        (case map_of (keyword_list self) word of
           None \<Rightarrow> \<lparr>count = 1, source = [src], sentence = [sen]\<rparr>
         | Some e \<Rightarrow> e\<lparr>count := count e + 1,
                       source := (if src \<notin> set (source e) then source e @ [src] else source e),
                       sentence := sentence e @ [sen]\<rparr>))"
  by (simp add: add_kw_to_dict_def update_conv' split: option.split)



lemma set_update_subset: "set (AList.update k v al) \<subseteq> insert (k, v) (set al)"
  by (induction al) auto

text \<open>Every entry of the table after \<open>_add_kw_to_dict\<close> is an old one, the fresh one, or
  the updated one.\<close>

lemma entries_add_kw_to_dict:
  assumes "(k, e') \<in> set (keyword_list (add_kw_to_dict self word src sen))"
  shows "(k, e') \<in> set (keyword_list self) \<or>
         (k = word \<and> e' = \<lparr>count = 1, source = [src], sentence = [sen]\<rparr>) \<or>
         (k = word \<and> (\<exists>e. (word, e) \<in> set (keyword_list self) \<and>
            e' = e\<lparr>count := count e + 1,
                   source := (if src \<notin> set (source e) then source e @ [src] else source e),
                   sentence := sentence e @ [sen]\<rparr>))"
proof (cases "map_of (keyword_list self) word")
  case None
  then show ?thesis
    using assms set_update_subset[of word _ "keyword_list self"]
    by (auto simp: add_kw_to_dict_def)
next
  case (Some e)
  let ?E = "e\<lparr>count := count e + 1,
                source := (if src \<notin> set (source e) then source e @ [src] else source e),
                sentence := sentence e @ [sen]\<rparr>"
  have mem: "(word, e) \<in> set (keyword_list self)"
    using Some by (rule map_of_SomeD)
  have "(k, e') \<in> set (AList.update word ?E (keyword_list self))"
    using assms Some by (simp add: add_kw_to_dict_def)
  then have "(k, e') = (word, ?E) \<or> (k, e') \<in> set (keyword_list self)"
    using set_update_subset[of word ?E "keyword_list self"] by blast
  then show ?thesis
    using mem by blast
qed

lemma step_keeps_count:
  assumes "\<forall>(k, e) \<in> set (keyword_list self). count e = int (length (sentence e))"
  shows "\<forall>(k, e) \<in> set (keyword_list (accumulate lower self word src sen)).
           count e = int (length (sentence e))"
  using assms entries_add_kw_to_dict[of _ _ self "lower word" src sen]
  unfolding accumulate_def by fastforce

lemma step_keeps_sources_distinct:
  assumes "\<forall>(k, e) \<in> set (keyword_list self). distinct (source e)"
  shows "\<forall>(k, e) \<in> set (keyword_list (accumulate lower self word src sen)).
           distinct (source e)"
  using assms entries_add_kw_to_dict[of _ _ self "lower word" src sen]
  unfolding accumulate_def by fastforce

lemma accumulate_calls_invariant:
  assumes step: "\<And>self word src sen.
      \<forall>(k, e) \<in> set (keyword_list self). P e \<Longrightarrow>
      \<forall>(k, e) \<in> set (keyword_list (accumulate lower self word src sen)). P e"
    and init: "\<forall>(k, e) \<in> set (keyword_list self). P e"
  shows "\<forall>(k, e) \<in> set (keyword_list (accumulate_calls lower self calls)). P e"
  using init
proof (induction calls arbitrary: self)
  case Nil
  then show ?case by simp
next
  case (Cons c calls)
  obtain w s x where c: "c = (w, s, x)" by (cases c)
  show ?case
    unfolding c accumulate_calls.simps
    by (rule Cons.IH) (rule step[OF Cons.prems])
qed

text \<open>The two loops of \<open>process_file_list\<close> perform a sequence of accumulate calls.\<close>

lemma accumulate_calls_append:
  "accumulate_calls lower self (cs @ ds) =
     accumulate_calls lower (accumulate_calls lower self cs) ds"
proof (induction cs arbitrary: self)
  case Nil
  then show ?case by simp
next
  case (Cons c cs)
  obtain w s x where c: "c = (w, s, x)" by (cases c)
  show ?case by (simp add: c Cons.IH)
qed

lemma add_key_words_calls:
  "add_key_words lower self key_words src sen =
     accumulate_calls lower self (map (\<lambda>w. (w, src, sen)) key_words)"
  by (induction key_words arbitrary: self) simp_all

lemma process_rows_calls:
  "process_rows lower kw_extractor self sentences = Inr self' \<Longrightarrow>
     \<exists>calls. self' = accumulate_calls lower self calls"
proof (induction sentences arbitrary: self)
  case Nil
  then have "self' = accumulate_calls lower self []" by simp
  then show ?case by blast
next
  case (Cons row sentences)
  obtain sen src where row: "row = (sen, src)" by (cases row)
  from Cons.prems obtain key_words where
    kw: "extract_keywords kw_extractor sen = Inr key_words" and
    rest: "process_rows lower kw_extractor (add_key_words lower self key_words src sen)
             sentences = Inr self'"
    by (auto simp: row split: sum.splits)
  from Cons.IH[OF rest] obtain calls where
    "self' = accumulate_calls lower (add_key_words lower self key_words src sen) calls"
    by blast
  then have "self' =
      accumulate_calls lower self (map (\<lambda>w. (w, src, sen)) key_words @ calls)"
    by (simp add: add_key_words_calls accumulate_calls_append)
  then show ?case by blast
qed

text \<open>
  Claim C1. One accumulate call \<open>(term, source, sentence)\<close> looks the lowercased term up.
  When it is not a key, the table gets the entry \<open>count = 1\<close>, \<open>sources = [source]\<close>,
  \<open>sentences = [sentence]\<close> under it; when it is a key, the entry's count grows by one,
  the source is appended unless it is already listed, and the sentence is appended in
  every case. The entries under all other keys stay as they were.
\<close>

theorem accumulate_entry:
  "(map_of (keyword_list self) (lower word) = None \<longrightarrow>
      map_of (keyword_list (accumulate lower self word src sen)) (lower word) =
        Some \<lparr>count = 1, source = [src], sentence = [sen]\<rparr>) \<and>
   (\<forall>e. map_of (keyword_list self) (lower word) = Some e \<longrightarrow>
      map_of (keyword_list (accumulate lower self word src sen)) (lower word) =
        Some \<lparr>count = count e + 1,
              source = (if src \<in> set (source e) then source e else source e @ [src]),
              sentence = sentence e @ [sen]\<rparr>) \<and>
   (\<forall>k. k \<noteq> lower word \<longrightarrow>
      map_of (keyword_list (accumulate lower self word src sen)) k =
        map_of (keyword_list self) k)"
  by (simp add: accumulate_def map_of_add_kw_to_dict)

theorem accumulate_entry_witness:
  "map_of (keyword_list (WordExtractor_init 3)) (ascii_lower ''Cloud'') = None \<and>
   map_of (keyword_list
       (accumulate ascii_lower (WordExtractor_init 3) ''Cloud'' ''a.txt'' ''Cloud one.''))
     (ascii_lower ''Cloud'') =
     Some \<lparr>count = 1, source = [''a.txt''], sentence = [''Cloud one.'']\<rparr> \<and>
   map_of (keyword_list
       (accumulate ascii_lower
          (accumulate ascii_lower (WordExtractor_init 3) ''Cloud'' ''a.txt'' ''Cloud one.'')
          ''CLOUD'' ''a.txt'' ''CLOUD two.''))
     (ascii_lower ''CLOUD'') =
     Some \<lparr>count = 2, source = [''a.txt''], sentence = [''Cloud one.'', ''CLOUD two.'']\<rparr> \<and>
   ''sky'' \<noteq> ascii_lower ''Cloud'' \<and>
   map_of (keyword_list
       (accumulate ascii_lower (WordExtractor_init 3) ''Cloud'' ''a.txt'' ''Cloud one.''))
     ''sky'' = map_of (keyword_list (WordExtractor_init 3)) ''sky''"
proof -
  let ?s0 = "WordExtractor_init 3"
  let ?s1 = "accumulate ascii_lower ?s0 ''Cloud'' ''a.txt'' ''Cloud one.''"
  let ?e1 = "\<lparr>count = 1, source = [''a.txt''], sentence = [''Cloud one.'']\<rparr>"
  have low: "ascii_lower ''CLOUD'' = ascii_lower ''Cloud''"
    by code_simp
  have h0: "map_of (keyword_list ?s0) (ascii_lower ''Cloud'') = None"
    by (simp add: WordExtractor_init_def)
  have r1: "map_of (keyword_list ?s1) (ascii_lower ''Cloud'') = Some ?e1"
    using accumulate_entry[of ?s0 ascii_lower "''Cloud''" "''a.txt''" "''Cloud one.''"] h0
    by blast
  then have h1: "map_of (keyword_list ?s1) (ascii_lower ''CLOUD'') = Some ?e1"
    by (simp only: low)
  have "map_of (keyword_list (accumulate ascii_lower ?s1 ''CLOUD'' ''a.txt'' ''CLOUD two.''))
          (ascii_lower ''CLOUD'') =
        Some \<lparr>count = count ?e1 + 1,
              source = (if ''a.txt'' \<in> set (source ?e1) then source ?e1
                        else source ?e1 @ [''a.txt'']),
              sentence = sentence ?e1 @ [''CLOUD two.'']\<rparr>"
    using accumulate_entry[of ?s1 ascii_lower "''CLOUD''" "''a.txt''" "''CLOUD two.''"] h1
    by blast
  then have r2: "map_of (keyword_list (accumulate ascii_lower ?s1 ''CLOUD'' ''a.txt'' ''CLOUD two.''))
          (ascii_lower ''CLOUD'') =
        Some \<lparr>count = 2, source = [''a.txt''], sentence = [''Cloud one.'', ''CLOUD two.'']\<rparr>"
    by simp
  have "ascii_lower ''Cloud'' = ''cloud''"
    by code_simp
  then have ne: "''sky'' \<noteq> ascii_lower ''Cloud''"
    by simp
  have r3: "map_of (keyword_list ?s1) ''sky'' = map_of (keyword_list ?s0) ''sky''"
    using accumulate_entry[of ?s0 ascii_lower "''Cloud''" "''a.txt''" "''Cloud one.''"] ne
    by blast
  from h0 r1 r2 ne r3 show ?thesis
    by blast
qed

text \<open>
  Claim C2. After any finite sequence of accumulate calls that starts from the empty
  table, the count of every entry equals the length of its list of sentences.
\<close>

theorem count_eq_length_sentences:
  assumes "keyword_list self = []"
  shows "\<forall>(k, e) \<in> set (keyword_list (accumulate_calls lower self calls)).
           count e = int (length (sentence e))"
proof (rule accumulate_calls_invariant)
  show "\<forall>(k, e) \<in> set (keyword_list self). count e = int (length (sentence e))"
    using assms by simp
next
  fix self' :: word_extractor and word src sen
  assume "\<forall>(k, e) \<in> set (keyword_list self'). count e = int (length (sentence e))"
  then show "\<forall>(k, e) \<in> set (keyword_list (accumulate lower self' word src sen)).
               count e = int (length (sentence e))"
    by (rule step_keeps_count)
qed

theorem count_eq_length_sentences_witness:
  "keyword_list (WordExtractor_init 3) = [] \<and>
   (''economy'', \<lparr>count = 2, source = [''a.txt'', ''b.txt''],
       sentence = [''The economy grew.'', ''The Economy grew.'']\<rparr>)
     \<in> set (keyword_list (accumulate_calls ascii_lower (WordExtractor_init 3)
         [(''economy'', ''a.txt'', ''The economy grew.''),
          (''grew'', ''a.txt'', ''The economy grew.''),
          (''Economy'', ''b.txt'', ''The Economy grew.'')])) \<and>
   count \<lparr>count = 2, source = [''a.txt'', ''b.txt''],
       sentence = [''The economy grew.'', ''The Economy grew.'']\<rparr> =
     int (length (sentence \<lparr>count = 2, source = [''a.txt'', ''b.txt''],
       sentence = [''The economy grew.'', ''The Economy grew.'']\<rparr>))"
proof -
  let ?calls = "[(''economy'', ''a.txt'', ''The economy grew.''),
                 (''grew'', ''a.txt'', ''The economy grew.''),
                 (''Economy'', ''b.txt'', ''The Economy grew.'')]"
  let ?e = "\<lparr>count = 2, source = [''a.txt'', ''b.txt''],
             sentence = [''The economy grew.'', ''The Economy grew.'']\<rparr>"
  have l1: "ascii_lower ''economy'' = ''economy''" by code_simp
  have l2: "ascii_lower ''grew'' = ''grew''" by code_simp
  have l3: "ascii_lower ''Economy'' = ''economy''" by code_simp
  have h: "keyword_list (WordExtractor_init 3) = []"
    by (simp add: WordExtractor_init_def)
  have mem: "(''economy'', ?e)
      \<in> set (keyword_list (accumulate_calls ascii_lower (WordExtractor_init 3) ?calls))"
    by (simp add: accumulate_def add_kw_to_dict_def WordExtractor_init_def l1 l2 l3)
  from count_eq_length_sentences[OF h, of ascii_lower ?calls] mem
  have "count ?e = int (length (sentence ?e))"
    by blast
  with h mem show ?thesis
    by blast
qed

text \<open>
  Claim C5. After any finite sequence of accumulate calls that starts from the empty
  table, no entry lists a source twice, also when a term is accumulated several times
  with the same source.
\<close>

theorem sources_distinct:
  assumes "keyword_list self = []"
  shows "\<forall>(k, e) \<in> set (keyword_list (accumulate_calls lower self calls)).
           distinct (source e)"
proof (rule accumulate_calls_invariant)
  show "\<forall>(k, e) \<in> set (keyword_list self). distinct (source e)"
    using assms by simp
next
  fix self' :: word_extractor and word src sen
  assume "\<forall>(k, e) \<in> set (keyword_list self'). distinct (source e)"
  then show "\<forall>(k, e) \<in> set (keyword_list (accumulate lower self' word src sen)).
               distinct (source e)"
    by (rule step_keeps_sources_distinct)
qed

theorem sources_distinct_witness:
  "keyword_list (WordExtractor_init 3) = [] \<and>
   (''cloud'', \<lparr>count = 3, source = [''a.txt'', ''b.txt''],
       sentence = [''Cloud one.'', ''cloud two.'', ''CLOUD three.'']\<rparr>)
     \<in> set (keyword_list (accumulate_calls ascii_lower (WordExtractor_init 3)
         [(''Cloud'', ''a.txt'', ''Cloud one.''),
          (''cloud'', ''a.txt'', ''cloud two.''),
          (''CLOUD'', ''b.txt'', ''CLOUD three.'')])) \<and>
   distinct (source \<lparr>count = 3, source = [''a.txt'', ''b.txt''],
       sentence = [''Cloud one.'', ''cloud two.'', ''CLOUD three.'']\<rparr>)"
proof -
  let ?calls = "[(''Cloud'', ''a.txt'', ''Cloud one.''),
                 (''cloud'', ''a.txt'', ''cloud two.''),
                 (''CLOUD'', ''b.txt'', ''CLOUD three.'')]"
  let ?e = "\<lparr>count = 3, source = [''a.txt'', ''b.txt''],
             sentence = [''Cloud one.'', ''cloud two.'', ''CLOUD three.'']\<rparr>"
  have l1: "ascii_lower ''Cloud'' = ''cloud''" by code_simp
  have l2: "ascii_lower ''cloud'' = ''cloud''" by code_simp
  have l3: "ascii_lower ''CLOUD'' = ''cloud''" by code_simp
  have h: "keyword_list (WordExtractor_init 3) = []"
    by (simp add: WordExtractor_init_def)
  have mem: "(''cloud'', ?e)
      \<in> set (keyword_list (accumulate_calls ascii_lower (WordExtractor_init 3) ?calls))"
    by (simp add: accumulate_def add_kw_to_dict_def WordExtractor_init_def l1 l2 l3)
  from sources_distinct[OF h, of ascii_lower ?calls] mem
  have "distinct (source ?e)"
    by blast
  with h mem show ?thesis
    by blast
qed




section \<open>Properties of the filter\<close>

lemma filter_loop_fields:
  "keyword_list (filter_loop self items) = keyword_list self \<and>
   blacklist (filter_loop self items) = blacklist self \<and>
   keyword_limit_in_result (filter_loop self items) = keyword_limit_in_result self"
proof (induction items arbitrary: self)
  case Nil
  then show ?case by simp
next
  case (Cons p items)
  obtain k v where p: "p = (k, v)" by (cases p)
  show ?case by (simp add: p Cons.IH)
qed

text \<open>What the loop leaves under a key, for a table of distinct keys.\<close>

lemma map_of_filter_loop:
  "distinct (map fst items) \<Longrightarrow>
   map_of (keyword_list_filtered (filter_loop self items)) k =
     (case map_of items k of
        Some v \<Rightarrow> if k \<notin> set (blacklist self) \<and> keyword_limit_in_result self \<le> count v
                  then Some v else map_of (keyword_list_filtered self) k
      | None \<Rightarrow> map_of (keyword_list_filtered self) k)"
proof (induction items arbitrary: self)
  case Nil
  then show ?case by simp
next
  case (Cons p items)
  obtain k' v where p: "p = (k', v)" by (cases p)
  from Cons.prems have none: "map_of items k' = None"
    by (simp add: p map_of_eq_None_iff)
  from Cons.prems have d: "distinct (map fst items)"
    by simp
  note IH = Cons.IH[OF d]
  show ?case
  proof (cases "k = k'")
    case True
    show ?thesis
      using True none IH by (simp add: p update_conv')
  next
    case False
    then show ?thesis
      by (simp add: p IH update_conv' split: option.split)
  qed
qed

lemma distinct_filter_loop:
  "distinct (map fst (keyword_list_filtered self)) \<Longrightarrow>
   distinct (map fst (keyword_list_filtered (filter_loop self items)))"
proof (induction items arbitrary: self)
  case Nil
  then show ?case by simp
next
  case (Cons p items)
  obtain k v where p: "p = (k, v)" by (cases p)
  show ?case
    using Cons.prems by (simp add: p Cons.IH distinct_update)
qed

lemma length_update_alist:
  "length (AList.update k v al) = (if k \<in> fst ` set al then length al else Suc (length al))"
  by (induction al) auto

text \<open>The size of the filtered table: what it held, and the passing keys it did not.\<close>

lemma length_filter_loop:
  "length (keyword_list_filtered (filter_loop self items)) =
     length (keyword_list_filtered self) +
     card (fst ` set (filter (\<lambda>(k, v). k \<notin> set (blacklist self) \<and>
                                  keyword_limit_in_result self \<le> count v) items)
           - fst ` set (keyword_list_filtered self))"
proof (induction items arbitrary: self)
  case Nil
  then show ?case by simp
next
  case (Cons p items)
  obtain k v where p: "p = (k, v)" by (cases p)
  let ?P = "fst ` set (filter (\<lambda>(k, v). k \<notin> set (blacklist self) \<and>
                                  keyword_limit_in_result self \<le> count v) items)"
  let ?F = "fst ` set (keyword_list_filtered self)"
  have fin: "finite ?P" by simp
  show ?case
  proof (cases "k \<notin> set (blacklist self) \<and> keyword_limit_in_result self \<le> count v")
    case False
    then show ?thesis
      by (auto simp: p Cons.IH)
  next
    case True
    show ?thesis
    proof (cases "k \<in> ?F")
      case inF: True
      then have "insert k ?P - ?F = ?P - ?F" by blast
      then show ?thesis
        using True inF by (simp add: p Cons.IH length_update_alist dom_update insert_absorb)
    next
      case notF: False
      have "insert k ?P - ?F = insert k (?P - insert k ?F)"
        using notF by blast
      moreover have "card (insert k (?P - insert k ?F)) = Suc (card (?P - insert k ?F))"
        using fin by simp
      ultimately show ?thesis
        using True notF by (simp add: p Cons.IH length_update_alist dom_update)
    qed
  qed
qed

text \<open>
  Claim C4. For a table (a dict, so of distinct keys) filtered into the empty
  \<open>keyword_list_filtered\<close> that \<open>__init__\<close> sets up, an entry is in the filtered table
  if and only if it is in the table, its term is not blacklisted, and its count is at
  least the limit. So an entry whose count is the limit is kept, and one whose count is
  one less is dropped.
\<close>

theorem filter_rows_iff:
  assumes "distinct (map fst (keyword_list self))"
    and "keyword_list_filtered self = []"
  shows "(k, v) \<in> set (keyword_list_filtered (filter_rows self)) \<longleftrightarrow>
           (k, v) \<in> set (keyword_list self) \<and> k \<notin> set (blacklist self) \<and>
           keyword_limit_in_result self \<le> count v"
proof -
  have "distinct (map fst (keyword_list_filtered (filter_rows self)))"
    unfolding filter_rows_def using assms(2) by (simp add: distinct_filter_loop)
  then have "(k, v) \<in> set (keyword_list_filtered (filter_rows self)) \<longleftrightarrow>
      map_of (keyword_list_filtered (filter_rows self)) k = Some v"
    by simp
  also have "\<dots> \<longleftrightarrow> map_of (keyword_list self) k = Some v \<and> k \<notin> set (blacklist self) \<and>
      keyword_limit_in_result self \<le> count v"
    unfolding filter_rows_def
    by (auto simp: map_of_filter_loop[OF assms(1)] assms(2) split: option.splits)
  also have "\<dots> \<longleftrightarrow> (k, v) \<in> set (keyword_list self) \<and> k \<notin> set (blacklist self) \<and>
      keyword_limit_in_result self \<le> count v"
    using assms(1) by simp
  finally show ?thesis .
qed

theorem filter_rows_iff_witness:
  "distinct (map fst (keyword_list ((WordExtractor_init 3)\<lparr>keyword_list :=
       [(''economy'', \<lparr>count = 3, source = [''a.txt''], sentence = [''s1'', ''s2'', ''s3'']\<rparr>),
        (''cloud'', \<lparr>count = 2, source = [''a.txt''], sentence = [''s1'', ''s2'']\<rparr>),
        (''year'', \<lparr>count = 4, source = [''b.txt''], sentence = [''s1'', ''s2'', ''s3'', ''s4'']\<rparr>)]\<rparr>))) \<and>
   keyword_list_filtered ((WordExtractor_init 3)\<lparr>keyword_list :=
       [(''economy'', \<lparr>count = 3, source = [''a.txt''], sentence = [''s1'', ''s2'', ''s3'']\<rparr>),
        (''cloud'', \<lparr>count = 2, source = [''a.txt''], sentence = [''s1'', ''s2'']\<rparr>),
        (''year'', \<lparr>count = 4, source = [''b.txt''], sentence = [''s1'', ''s2'', ''s3'', ''s4'']\<rparr>)]\<rparr>) = [] \<and>
   (''economy'', \<lparr>count = 3, source = [''a.txt''], sentence = [''s1'', ''s2'', ''s3'']\<rparr>)
     \<in> set (keyword_list_filtered (filter_rows ((WordExtractor_init 3)\<lparr>keyword_list :=
       [(''economy'', \<lparr>count = 3, source = [''a.txt''], sentence = [''s1'', ''s2'', ''s3'']\<rparr>),
        (''cloud'', \<lparr>count = 2, source = [''a.txt''], sentence = [''s1'', ''s2'']\<rparr>),
        (''year'', \<lparr>count = 4, source = [''b.txt''], sentence = [''s1'', ''s2'', ''s3'', ''s4'']\<rparr>)]\<rparr>))) \<and>
   (''cloud'', \<lparr>count = 2, source = [''a.txt''], sentence = [''s1'', ''s2'']\<rparr>)
     \<notin> set (keyword_list_filtered (filter_rows ((WordExtractor_init 3)\<lparr>keyword_list :=
       [(''economy'', \<lparr>count = 3, source = [''a.txt''], sentence = [''s1'', ''s2'', ''s3'']\<rparr>),
        (''cloud'', \<lparr>count = 2, source = [''a.txt''], sentence = [''s1'', ''s2'']\<rparr>),
        (''year'', \<lparr>count = 4, source = [''b.txt''], sentence = [''s1'', ''s2'', ''s3'', ''s4'']\<rparr>)]\<rparr>))) \<and>
   (''year'', \<lparr>count = 4, source = [''b.txt''], sentence = [''s1'', ''s2'', ''s3'', ''s4'']\<rparr>)
     \<notin> set (keyword_list_filtered (filter_rows ((WordExtractor_init 3)\<lparr>keyword_list :=
       [(''economy'', \<lparr>count = 3, source = [''a.txt''], sentence = [''s1'', ''s2'', ''s3'']\<rparr>),
        (''cloud'', \<lparr>count = 2, source = [''a.txt''], sentence = [''s1'', ''s2'']\<rparr>),
        (''year'', \<lparr>count = 4, source = [''b.txt''], sentence = [''s1'', ''s2'', ''s3'', ''s4'']\<rparr>)]\<rparr>)))"
proof -
  let ?e3 = "\<lparr>count = 3, source = [''a.txt''], sentence = [''s1'', ''s2'', ''s3'']\<rparr>"
  let ?e2 = "\<lparr>count = 2, source = [''a.txt''], sentence = [''s1'', ''s2'']\<rparr>"
  let ?e4 = "\<lparr>count = 4, source = [''b.txt''], sentence = [''s1'', ''s2'', ''s3'', ''s4'']\<rparr>"
  let ?self = "(WordExtractor_init 3)\<lparr>keyword_list :=
       [(''economy'', ?e3), (''cloud'', ?e2), (''year'', ?e4)]\<rparr>"
  have d: "distinct (map fst (keyword_list ?self))"
    by simp
  have f: "keyword_list_filtered ?self = []"
    by (simp add: WordExtractor_init_def)
  have lim: "keyword_limit_in_result ?self = 3"
    by (simp add: WordExtractor_init_def)
  have bl: "''economy'' \<notin> set (blacklist ?self)" "''year'' \<in> set (blacklist ?self)"
    by (simp_all add: WordExtractor_init_def)
  have a: "(''economy'', ?e3) \<in> set (keyword_list_filtered (filter_rows ?self))"
    using filter_rows_iff[OF d f, of "''economy''" ?e3] bl(1) lim by simp
  have b: "(''cloud'', ?e2) \<notin> set (keyword_list_filtered (filter_rows ?self))"
    using filter_rows_iff[OF d f, of "''cloud''" ?e2] lim by simp
  have c: "(''year'', ?e4) \<notin> set (keyword_list_filtered (filter_rows ?self))"
    using filter_rows_iff[OF d f, of "''year''" ?e4] bl(2) by simp
  from d f a b c show ?thesis
    by blast
qed

text \<open>
  Claim C7. For a fixed table, blacklist and prior content of \<open>keyword_list_filtered\<close>,
  and limits \<open>t1 \<le> t2\<close>, filtering with \<open>t2\<close> gives a filtered table no larger than
  filtering with \<open>t1\<close>.
\<close>

theorem filter_threshold_monotone:
  assumes "t1 \<le> t2"
  shows "length (keyword_list_filtered
             (filter_rows (self\<lparr>keyword_limit_in_result := t2\<rparr>))) \<le>
         length (keyword_list_filtered
             (filter_rows (self\<lparr>keyword_limit_in_result := t1\<rparr>)))"
proof -
  let ?P = "\<lambda>t. fst ` set (filter (\<lambda>(k, v). k \<notin> set (blacklist self) \<and> t \<le> count v)
                              (keyword_list self))"
  have "?P t2 \<subseteq> ?P t1"
    using assms by force
  then have "?P t2 - fst ` set (keyword_list_filtered self) \<subseteq>
             ?P t1 - fst ` set (keyword_list_filtered self)"
    by blast
  moreover have "finite (?P t1 - fst ` set (keyword_list_filtered self))"
    by simp
  ultimately have "card (?P t2 - fst ` set (keyword_list_filtered self)) \<le>
                   card (?P t1 - fst ` set (keyword_list_filtered self))"
    by (rule card_mono[rotated])
  then show ?thesis
    by (simp add: filter_rows_def length_filter_loop)
qed

theorem filter_threshold_monotone_witness:
  "(2::int) \<le> 3 \<and>
   length (keyword_list_filtered (filter_rows ((WordExtractor_init 0)\<lparr>keyword_list :=
       [(''economy'', \<lparr>count = 3, source = [''a.txt''], sentence = [''s1'', ''s2'', ''s3'']\<rparr>),
        (''cloud'', \<lparr>count = 2, source = [''a.txt''], sentence = [''s1'', ''s2'']\<rparr>)],
       keyword_limit_in_result := 3\<rparr>))) = 1 \<and>
   length (keyword_list_filtered (filter_rows ((WordExtractor_init 0)\<lparr>keyword_list :=
       [(''economy'', \<lparr>count = 3, source = [''a.txt''], sentence = [''s1'', ''s2'', ''s3'']\<rparr>),
        (''cloud'', \<lparr>count = 2, source = [''a.txt''], sentence = [''s1'', ''s2'']\<rparr>)],
       keyword_limit_in_result := 2\<rparr>))) = 2"
proof -
  let ?self = "(WordExtractor_init 0)\<lparr>keyword_list :=
       [(''economy'', \<lparr>count = 3, source = [''a.txt''], sentence = [''s1'', ''s2'', ''s3'']\<rparr>),
        (''cloud'', \<lparr>count = 2, source = [''a.txt''], sentence = [''s1'', ''s2'']\<rparr>)]\<rparr>"
  have h: "(2::int) \<le> 3" by simp
  have a: "length (keyword_list_filtered
             (filter_rows (?self\<lparr>keyword_limit_in_result := 3\<rparr>))) = 1"
    by (simp add: filter_rows_def WordExtractor_init_def)
  have b: "length (keyword_list_filtered
             (filter_rows (?self\<lparr>keyword_limit_in_result := 2\<rparr>))) = 2"
    by (simp add: filter_rows_def WordExtractor_init_def)
  from filter_threshold_monotone[OF h, of ?self] a b h show ?thesis
    by simp
qed

section \<open>Properties of the text normalizer\<close>

declare str_replace.simps [simp del]

lemma str_replace_Nil: "old \<noteq> [] \<Longrightarrow> str_replace old new [] = []"
  by (simp add: str_replace.simps)

lemma str_replace_Cons:
  "old \<noteq> [] \<Longrightarrow> str_replace old new (c # cs) =
     (if prefix old (c # cs) then new @ str_replace old new (drop (length old) (c # cs))
      else c # str_replace old new cs)"
  by (simp add: str_replace.simps[of old new "c # cs"])

lemma str_replace_absent:
  "old \<noteq> [] \<Longrightarrow> \<not> str_in old s \<Longrightarrow> str_replace old new s = s"
  by (induction s) (simp_all add: str_replace_Nil str_replace_Cons)

lemma clean_text_replace: "clean_text s = str_replace ''al Qaeda'' ''alqaeda'' s"
  by (simp add: clean_text_def str_replace_absent)

lemma clean_text_Nil: "clean_text [] = []"
  by (simp add: clean_text_def)

lemma clean_text_match: "clean_text (''al Qaeda'' @ t) = ''alqaeda'' @ clean_text t"
  unfolding clean_text_replace
  by (subst str_replace.simps) simp

lemma clean_text_skip:
  assumes "\<not> prefix ''al Qaeda'' (c # cs)"
  shows "clean_text (c # cs) = c # clean_text cs"
proof -
  have "str_replace ''al Qaeda'' ''alqaeda'' (c # cs) =
          (if prefix ''al Qaeda'' (c # cs)
           then ''alqaeda'' @ str_replace ''al Qaeda'' ''alqaeda'' (drop (length ''al Qaeda'') (c # cs))
           else c # str_replace ''al Qaeda'' ''alqaeda'' cs)"
    by (rule str_replace_Cons) simp
  with assms show ?thesis
    unfolding clean_text_replace by (simp only: if_False)
qed

text \<open>The three ways \<open>_clean_text\<close> proceeds on a text: it is empty, it begins with
  the searched name, or its first character is copied.\<close>

lemma clean_text_cases:
  obtains (Nil) "t = []" "clean_text t = []"
  | (Match) t' where "t = ''al Qaeda'' @ t'" "clean_text t = ''alqaeda'' @ clean_text t'"
  | (Skip) c cs where "t = c # cs" "\<not> prefix ''al Qaeda'' t" "clean_text t = c # clean_text cs"
proof (cases "prefix ''al Qaeda'' t")
  case True
  then obtain t' where "t = ''al Qaeda'' @ t'"
    by (auto elim: prefixE)
  then show ?thesis
    using Match clean_text_match by blast
next
  case False
  show ?thesis
  proof (cases t)
    case Nil
    then show ?thesis using that(1) clean_text_Nil by blast
  next
    case (Cons c cs)
    then show ?thesis
      using False Skip clean_text_skip by blast
  qed
qed

text \<open>A suffix of \<open>l Qaeda\<close> at the front of the cleaned text was at the front of
  the text, and conversely; the replacement contains neither a space nor a capital.\<close>

lemma back_a: "prefix ''a'' (clean_text t) \<Longrightarrow> prefix ''a'' t"
  by (cases t rule: clean_text_cases) auto

lemma back_da: "prefix ''da'' (clean_text t) \<Longrightarrow> prefix ''da'' t"
  by (cases t rule: clean_text_cases) (auto dest: back_a)

lemma back_eda: "prefix ''eda'' (clean_text t) \<Longrightarrow> prefix ''eda'' t"
  by (cases t rule: clean_text_cases) (auto dest: back_da)

lemma back_aeda: "prefix ''aeda'' (clean_text t) \<Longrightarrow> prefix ''aeda'' t"
  by (cases t rule: clean_text_cases) (auto dest: back_eda)

lemma back_Qaeda: "prefix ''Qaeda'' (clean_text t) \<Longrightarrow> prefix ''Qaeda'' t"
  by (cases t rule: clean_text_cases) (auto dest: back_aeda)

lemma back_sQaeda: "prefix '' Qaeda'' (clean_text t) \<Longrightarrow> prefix '' Qaeda'' t"
  by (cases t rule: clean_text_cases) (auto dest: back_Qaeda)

lemma back_lsQaeda: "prefix ''l Qaeda'' (clean_text t) \<Longrightarrow> prefix ''l Qaeda'' t"
  by (cases t rule: clean_text_cases) (auto dest: back_sQaeda)


lemma clean_text_no_new_match:
  "\<not> str_in ''al Qaedal Qaeda'' t \<Longrightarrow> \<not> str_in ''al Qaeda'' (clean_text t)"
proof (induction t rule: length_induct)
  case (1 t)
  show ?case
  proof (cases t rule: clean_text_cases)
    case Nil
    then show ?thesis by simp
  next
    case (Match t')
    from "1.prems" Match(1) have a: "\<not> prefix ''l Qaeda'' t'" and b: "\<not> str_in ''al Qaedal Qaeda'' t'"
      by simp_all
    from a have "\<not> prefix ''l Qaeda'' (clean_text t')"
      using back_lsQaeda by blast
    moreover have "\<not> str_in ''al Qaeda'' (clean_text t')"
      using "1.IH" b Match(1) by simp
    ultimately show ?thesis
      by (simp add: Match(2))
  next
    case (Skip c cs)
    from "1.prems" have b: "\<not> str_in ''al Qaedal Qaeda'' cs"
      unfolding Skip(1) by (simp only: str_in.simps) blast
    have ih: "\<not> str_in ''al Qaeda'' (clean_text cs)"
      using "1.IH" b Skip(1) by simp
    have "\<not> prefix ''al Qaeda'' (c # clean_text cs)"
    proof
      assume "prefix ''al Qaeda'' (c # clean_text cs)"
      then have c: "c = CHR ''a''" and "prefix ''l Qaeda'' (clean_text cs)"
        by auto
      then have "prefix ''l Qaeda'' cs"
        using back_lsQaeda by blast
      then have "prefix ''al Qaeda'' (c # cs)"
        unfolding c by simp
      then show False
        using Skip(1,2) by blast
    qed
    then show ?thesis
      using ih by (simp add: Skip(3))
  qed
qed

lemma fwd_a: "prefix ''a'' t \<Longrightarrow> prefix ''a'' (clean_text t)"
  by (cases t rule: clean_text_cases) auto

lemma fwd_da: "prefix ''da'' t \<Longrightarrow> prefix ''da'' (clean_text t)"
  by (cases t rule: clean_text_cases) (auto dest: fwd_a)

lemma fwd_eda: "prefix ''eda'' t \<Longrightarrow> prefix ''eda'' (clean_text t)"
  by (cases t rule: clean_text_cases) (auto dest: fwd_da)

lemma fwd_aeda: "prefix ''aeda'' t \<Longrightarrow> prefix ''aeda'' (clean_text t)"
  by (cases t rule: clean_text_cases) (auto dest: fwd_eda)

lemma fwd_Qaeda: "prefix ''Qaeda'' t \<Longrightarrow> prefix ''Qaeda'' (clean_text t)"
  by (cases t rule: clean_text_cases) (auto dest: fwd_aeda)

lemma fwd_sQaeda: "prefix '' Qaeda'' t \<Longrightarrow> prefix '' Qaeda'' (clean_text t)"
  by (cases t rule: clean_text_cases) (auto dest: fwd_Qaeda)

lemma fwd_lsQaeda: "prefix ''l Qaeda'' t \<Longrightarrow> prefix ''l Qaeda'' (clean_text t)"
  by (cases t rule: clean_text_cases) (auto dest: fwd_sQaeda)

lemma clean_text_new_match:
  "str_in ''al Qaedal Qaeda'' t \<Longrightarrow> str_in ''al Qaeda'' (clean_text t)"
proof (induction t rule: length_induct)
  case (1 t)
  show ?case
  proof (cases t rule: clean_text_cases)
    case Nil
    then show ?thesis using "1.prems" by simp
  next
    case (Match t')
    from "1.prems" Match(1)
    have "prefix ''l Qaeda'' t' \<or> prefix (''l Qaeda'' @ ''l Qaeda'') t' \<or>
          str_in ''al Qaedal Qaeda'' t'"
      by auto
    then have "prefix ''l Qaeda'' t' \<or> str_in ''al Qaedal Qaeda'' t'"
      using append_prefixD by blast
    then show ?thesis
    proof
      assume "prefix ''l Qaeda'' t'"
      then have "prefix ''l Qaeda'' (clean_text t')"
        by (rule fwd_lsQaeda)
      then show ?thesis
        by (simp add: Match(2))
    next
      assume "str_in ''al Qaedal Qaeda'' t'"
      then have "str_in ''al Qaeda'' (clean_text t')"
        using "1.IH" Match(1) by simp
      then show ?thesis
        by (simp add: Match(2))
    qed
  next
    case (Skip c cs)
    have "\<not> prefix (''al Qaeda'' @ ''l Qaeda'') (c # cs)"
      using Skip(1,2) append_prefixD by blast
    then have "\<not> prefix ''al Qaedal Qaeda'' (c # cs)"
      by simp
    moreover from "1.prems"
    have "prefix ''al Qaedal Qaeda'' (c # cs) \<or> str_in ''al Qaedal Qaeda'' cs"
      unfolding Skip(1) by (simp only: str_in.simps)
    ultimately have "str_in ''al Qaedal Qaeda'' cs"
      by blast
    then have "str_in ''al Qaeda'' (clean_text cs)"
      using "1.IH" Skip(1) by simp
    then show ?thesis
      by (simp add: Skip(3))
  qed
qed

lemma length_clean_text_le: "length (clean_text t) \<le> length t"
proof (induction t rule: length_induct)
  case (1 t)
  show ?case
  proof (cases t rule: clean_text_cases)
    case Nil
    then show ?thesis by simp
  next
    case (Match t')
    then have "length (clean_text t') \<le> length t'"
      using "1.IH"[rule_format, of t'] by simp
    then show ?thesis using Match by simp
  next
    case (Skip c cs)
    then have "length (clean_text cs) \<le> length cs"
      using "1.IH"[rule_format, of cs] by simp
    then show ?thesis using Skip by simp
  qed
qed

lemma length_clean_text_less:
  "str_in ''al Qaeda'' t \<Longrightarrow> length (clean_text t) < length t"
proof (induction t rule: length_induct)
  case (1 t)
  show ?case
  proof (cases t rule: clean_text_cases)
    case Nil
    then show ?thesis using "1.prems" by simp
  next
    case (Match t')
    then show ?thesis using length_clean_text_le[of t'] by simp
  next
    case (Skip c cs)
    from "1.prems" have "prefix ''al Qaeda'' t \<or> str_in ''al Qaeda'' cs"
      unfolding Skip(1) by (simp only: str_in.simps)
    with Skip(2) have "str_in ''al Qaeda'' cs"
      by blast
    then have "length (clean_text cs) < length cs"
      using "1.IH"[rule_format, of cs] Skip(1) by simp
    then show ?thesis using Skip by simp
  qed
qed

text \<open>
  Claim C9, as the code has it. Cleaning twice gives the same as cleaning once exactly
  for the texts that do not contain \<open>al Qaedal Qaeda\<close>, that is, two occurrences of
  \<open>al Qaeda\<close> sharing one \<open>a\<close>. On such a text the first pass replaces the first
  occurrence, whose last \<open>a\<close> then completes a new \<open>al Qaeda\<close> that the second pass
  replaces.
\<close>

theorem clean_text_idempotent_iff:
  "clean_text (clean_text x) = clean_text x \<longleftrightarrow> \<not> str_in ''al Qaedal Qaeda'' x"
proof
  assume eq: "clean_text (clean_text x) = clean_text x"
  show "\<not> str_in ''al Qaedal Qaeda'' x"
  proof
    assume "str_in ''al Qaedal Qaeda'' x"
    then have "str_in ''al Qaeda'' (clean_text x)"
      by (rule clean_text_new_match)
    then have "length (clean_text (clean_text x)) < length (clean_text x)"
      by (rule length_clean_text_less)
    then show False using eq by simp
  qed
next
  assume "\<not> str_in ''al Qaedal Qaeda'' x"
  then have "\<not> str_in ''al Qaeda'' (clean_text x)"
    by (rule clean_text_no_new_match)
  then show "clean_text (clean_text x) = clean_text x"
    by (simp add: clean_text_def)
qed

theorem clean_text_idempotent_witness:
  "\<not> str_in ''al Qaedal Qaeda'' ''al Qaeda and al Qaeda'' \<and>
   clean_text ''al Qaeda and al Qaeda'' = ''alqaeda and alqaeda'' \<and>
   clean_text (clean_text ''al Qaeda and al Qaeda'') = clean_text ''al Qaeda and al Qaeda''"
proof -
  have h: "\<not> str_in ''al Qaedal Qaeda'' ''al Qaeda and al Qaeda''"
    by simp
  have v: "clean_text ''al Qaeda and al Qaeda'' = ''alqaeda and alqaeda''"
    by (simp add: clean_text_replace str_replace_Cons str_replace_Nil)
  from clean_text_idempotent_iff[of "''al Qaeda and al Qaeda''"] h
  have "clean_text (clean_text ''al Qaeda and al Qaeda'') = clean_text ''al Qaeda and al Qaeda''"
    by blast
  with h v show ?thesis
    by blast
qed

text \<open>
  Claim C9 as the specification states it, idempotence on every input, fails on
  \<open>al Qaedal Qaeda\<close>: one pass gives \<open>alqaedal Qaeda\<close>, a second one
  \<open>alqaedalqaeda\<close>.
\<close>

theorem clean_text_not_idempotent:
  "clean_text ''al Qaedal Qaeda'' = ''alqaedal Qaeda'' \<and>
   clean_text (clean_text ''al Qaedal Qaeda'') = ''alqaedalqaeda'' \<and>
   clean_text (clean_text ''al Qaedal Qaeda'') \<noteq> clean_text ''al Qaedal Qaeda''"
  by (simp add: clean_text_replace str_replace_Cons str_replace_Nil)

text \<open>
  Claim C10. The normalizer performs the one rewrite of \<open>al Qaeda\<close> to \<open>alqaeda\<close>
  and nothing else: a text that does not contain \<open>al Qaeda\<close> is returned unchanged.
\<close>

theorem clean_text_unchanged:
  "clean_text x = str_replace ''al Qaeda'' ''alqaeda'' x \<and>
   (\<not> str_in ''al Qaeda'' x \<longrightarrow> clean_text x = x)"
  by (simp add: clean_text_replace[symmetric]) (simp add: clean_text_def)

theorem clean_text_unchanged_witness:
  "\<not> str_in ''al Qaeda'' ''The economy grew.'' \<and>
   clean_text ''The economy grew.'' = ''The economy grew.''"
proof -
  have h: "\<not> str_in ''al Qaeda'' ''The economy grew.''"
    by simp
  from clean_text_unchanged[of "''The economy grew.''"] h show ?thesis
    by blast
qed

section \<open>Properties of the run\<close>

lemma process_file_list_empty:
  "process_file_list lower get_sentences kw_extractor self [] = Inr (filter_rows self)"
  by (simp add: process_file_list_def)

text \<open>
  Claim C6 does not hold of the code. With no matching file the aggregated and the
  filtered table are empty, the data frame built from the empty dict has no \<open>count\<close>
  column, and \<open>sort_values\<close> raises \<open>KeyError\<close>: the run ends with an error before
  any table is written.
\<close>

theorem main_empty_folder_raises:
  "main lower get_sentences kw_extractor [] folder keyword_limit_in_final_table =
     Inl (KeyError ''count'')"
  by (simp add: main_def glob_txt_def process_file_list_empty filter_rows_def
      WordExtractor_init_def DataFrame_transpose_def sort_values_count_def)

text \<open>
  Claim C8 does not hold of the code. The pattern is \<open>*txt\<close>, without the dot: a file
  named \<open>notes_txt\<close> does not end with \<open>.txt\<close> and is processed all the same.
\<close>

theorem glob_txt_takes_undotted_name:
  "glob_txt ''docs'' [''notes_txt'', ''a.txt'', ''b.md''] = [''docs/notes_txt'', ''docs/a.txt''] \<and>
   \<not> suffix ''.txt'' ''notes_txt''"
  by (simp add: glob_txt_def ishidden_def suffix_to_prefix)

end
